theory Spec2Isabelle
  imports Complex_Main
begin

section \<open>The regular expressions of \<open>extract_video_id\<close>\<close>

text \<open>
  \<open>extract_video_id\<close> hands three pattern strings to Python's \<open>re.search\<close>. The
  patterns use literal characters, the wildcard \<open>.\<close> (any character but a newline, no
  flag being given), one negated character set, concatenation, alternation inside a
  non-capturing group, a greedy star over a single character class and one capture group.
  The datatype below has exactly these constructs.
\<close>

datatype cls = Lit char | AnyChar | NoneOf "char list"

fun cls_ok :: "cls \<Rightarrow> char \<Rightarrow> bool" where
  "cls_ok (Lit a) c = (c = a)"
| "cls_ok AnyChar c = (c \<noteq> CHR 0x0A)"
| "cls_ok (NoneOf bs) c = (c \<notin> set bs)"

datatype rx = Eps | One cls | Star cls | Seq rx rx | Alt rx rx | Grp rx

text \<open>
  A matcher state is the input still to be read and the text of group 1, if the group has
  been closed. \<open>ms r st\<close> lists the states in which a match of \<open>r\<close> from \<open>st\<close> can end, in
  the order in which Python's backtracking matcher tries them: the left alternative before
  the right one, the longest repetition before the shorter ones. The matcher commits to
  the first path on which the whole pattern succeeds, which is the head of the list.
\<close>

type_synonym mstate = "string \<times> string option"

fun ms :: "rx \<Rightarrow> mstate \<Rightarrow> mstate list" where
  "ms Eps st = [st]"
| "ms (One c) (s, g) =
     (case s of [] \<Rightarrow> [] | x # xs \<Rightarrow> if cls_ok c x then [(xs, g)] else [])"
| "ms (Star c) (s, g) =
     (case s of
        [] \<Rightarrow> [([], g)]
      | x # xs \<Rightarrow> if cls_ok c x then ms (Star c) (xs, g) @ [(s, g)] else [(s, g)])"
| "ms (Seq a b) st = concat (map (ms b) (ms a st))"
| "ms (Alt a b) st = ms a st @ ms b st"
| "ms (Grp r) (s, g) =
     map (\<lambda>(s', _). (s', Some (take (length s - length s') s))) (ms r (s, g))"

text \<open>A literal piece of a pattern: its characters one after the other.\<close>

fun lits :: "string \<Rightarrow> rx" where
  "lits [] = Eps"
| "lits (c # cs) = Seq (One (Lit c)) (lits cs)"

text \<open>
  \<open>re_match r s\<close> is a match of \<open>r\<close> starting at the first character of \<open>s\<close>: \<open>None\<close> when
  there is none, otherwise \<open>Some\<close> of what \<open>match.group(1)\<close> holds (itself \<open>None\<close> when the
  group took no part). \<open>re_search\<close> scans the start positions from left to right, the end
  of the string included, and stops at the first position with a match.
\<close>

definition re_match :: "rx \<Rightarrow> string \<Rightarrow> string option option" where
  "re_match r s = (case ms r (s, None) of [] \<Rightarrow> None | (_, g) # _ \<Rightarrow> Some g)"

fun re_search :: "rx \<Rightarrow> string \<Rightarrow> string option option" where
  "re_search r [] = re_match r []"
| "re_search r (c # cs) =
     (case re_match r (c # cs) of Some m \<Rightarrow> Some m | None \<Rightarrow> re_search r cs)"

section \<open>\<open>extract_video_id\<close>\<close>

text \<open>The tail \<open>([^#\&\?]*).*\<close> that the three patterns share.\<close>

definition id_tail :: rx where
  "id_tail = Seq (Grp (Star (NoneOf ''#&?''))) (Star AnyChar)"

text \<open>
  The heads of the three patterns:
  \<^verbatim>\<open>(?:v=|\/videos\/|embed\/|youtu.be\/|\/v\/|\/e\/|watch\?v=|\&v=)\<close>,
  \<^verbatim>\<open>(?:youtube.com\/shorts\/)\<close> and \<^verbatim>\<open>(?:youtube.com\/live\/)\<close>.
  The dots of \<open>youtu.be\<close> and \<open>youtube.com\<close> are not escaped in the source, so they are
  wildcards.
\<close>

definition head1 :: rx where
  "head1 =
     Alt (lits ''v='')
    (Alt (lits ''/videos/'')
    (Alt (lits ''embed/'')
    (Alt (Seq (lits ''youtu'') (Seq (One AnyChar) (lits ''be/'')))
    (Alt (lits ''/v/'')
    (Alt (lits ''/e/'')
    (Alt (lits ''watch?v='')
         (lits ''&v='')))))))"

definition head2 :: rx where
  "head2 = Seq (lits ''youtube'') (Seq (One AnyChar) (lits ''com/shorts/''))"

definition head3 :: rx where
  "head3 = Seq (lits ''youtube'') (Seq (One AnyChar) (lits ''com/live/''))"

definition patterns :: "rx list" where
  "patterns = [Seq head1 id_tail, Seq head2 id_tail, Seq head3 id_tail]"

text \<open>
  The loop over the patterns: the first pattern that \<open>re.search\<close> finds in the URL
  decides, and its group 1 is returned; \<open>None\<close> when the loop runs out.
\<close>

fun first_match :: "rx list \<Rightarrow> string \<Rightarrow> string option" where
  "first_match [] url = None"
| "first_match (pattern # rest) url =
     (case re_search pattern url of
        Some m \<Rightarrow> m
      | None \<Rightarrow> first_match rest url)"

definition extract_video_id :: "string \<Rightarrow> string option" where
  "extract_video_id url = first_match patterns url"

section \<open>The retrieval service\<close>

text \<open>
  The transcript library is an external collaborator. The endpoint sees three things of
  it: \<open>list_transcripts(video_id)\<close>, which returns the descriptors of a video or raises;
  the attributes \<open>language_code\<close> and \<open>is_generated\<close> of a descriptor; and \<open>fetch()\<close>,
  which returns the segments of a descriptor or raises. Every exception the endpoint can
  catch is an \<open>Exception\<close>; the two classes it names have constructors of their own, and
  any other carries the text \<open>str(e)\<close> gives.
\<close>

datatype exn = TranscriptsDisabled | NoTranscriptFound | OtherException string

text \<open>
  A segment has the keys \<open>text\<close>, \<open>start\<close> and \<open>duration\<close>; the first is called
  \<open>seg_text\<close> here, \<open>text\<close> being a command of the theory language.
\<close>

record segment =
  seg_text :: string
  start :: real
  duration :: real

record descriptor =
  language_code :: string
  is_generated :: bool
  fetch :: "exn + segment list"

text \<open>
  The proxy configuration a client is built with, and a client: the behaviour of its
  \<open>list_transcripts\<close>. The requests a run sends to the service are recorded in order.
\<close>

record proxy_config =
  proxy_username :: string
  proxy_password :: string

type_synonym api = "string \<Rightarrow> exn + descriptor list"

datatype call = ListTranscripts string | Fetch descriptor

record response =
  success :: bool
  fail_reason :: "string option"
  language :: "string option"
  transcript :: "string option"

section \<open>String operations of Python used by the endpoint\<close>

definition endswith :: "string \<Rightarrow> string \<Rightarrow> bool" where
  "endswith s suffix =
     (length suffix \<le> length s \<and> drop (length s - length suffix) s = suffix)"

definition startswith :: "string \<Rightarrow> string \<Rightarrow> bool" where
  "startswith s prefix = (take (length prefix) s = prefix)"

text \<open>
  \<open>s.replace(old, new)\<close>: every occurrence of \<open>old\<close>, found from left to right without
  overlap, becomes \<open>new\<close>. With an empty \<open>old\<close> Python puts \<open>new\<close> before every character
  and at the end.
\<close>

function replace :: "string \<Rightarrow> string \<Rightarrow> string \<Rightarrow> string" where
  "replace s old new =
     (if old = [] then new @ concat (map (\<lambda>c. c # new) s)
      else if s = [] then []
      else if startswith s old then new @ replace (drop (length old) s) old new
      else hd s # replace (tl s) old new)"
  by pat_completeness auto
termination
  by (relation "measure (\<lambda>(s, old, new). length s)") auto

declare replace.simps [simp del]

text \<open>\<open>sep.join(xs)\<close>.\<close>

fun join :: "string \<Rightarrow> string list \<Rightarrow> string" where
  "join sep [] = []"
| "join sep [x] = x"
| "join sep (x # y # ys) = x @ sep @ join sep (y # ys)"

section \<open>The endpoint \<open>get_transcript\<close>\<close>

text \<open>
  The three local variables of the selection. \<open>language_code\<close> and \<open>is_generated\<close> are
  also attributes of a descriptor, so the locals carry the prefix \<open>var_\<close>.
\<close>

record vars =
  found_transcript :: "segment list option"
  var_language_code :: "string option"
  var_is_generated :: bool

definition init_vars :: vars where
  "init_vars = \<lparr>found_transcript = None, var_language_code = None, var_is_generated = False\<rparr>"

text \<open>
  Python's truth value of \<open>found_transcript\<close>: \<open>None\<close> and the empty list are false.
\<close>

definition truthy :: "segment list option \<Rightarrow> bool" where
  "truthy ft = (case ft of None \<Rightarrow> False | Some segs \<Rightarrow> segs \<noteq> [])"

text \<open>
  \<open>next((t for t in ts if t.language_code == "en"), None)\<close>. A descriptor object is
  always true, so \<open>if english_manual:\<close> asks only whether one was found.
\<close>

definition next_en :: "descriptor list \<Rightarrow> descriptor option" where
  "next_en ts = find (\<lambda>t. language_code t = ''en'') ts"

text \<open>
  One \<open>fetch()\<close> inside a \<open>try\<close> whose handler is \<open>except Exception: pass\<close>: when it
  raises, the assignments after it do not happen and the variables stay as they were.
  \<open>lc\<close> is the value \<open>language_code\<close> is assigned, \<open>gen\<close> that of \<open>is_generated\<close>.
\<close>

definition fetch_into :: "descriptor \<Rightarrow> string \<Rightarrow> bool \<Rightarrow> vars \<Rightarrow> vars \<times> call list" where
  "fetch_into t lc gen v =
     (case fetch t of
        Inl e \<Rightarrow> (v, [Fetch t])
      | Inr segs \<Rightarrow>
          (\<lparr>found_transcript = Some segs, var_language_code = Some lc, var_is_generated = gen\<rparr>,
           [Fetch t]))"

text \<open>Lines 78 to 98: the attempt on the manually created transcripts.\<close>

definition try_manual :: "descriptor list \<Rightarrow> vars \<Rightarrow> vars \<times> call list" where
  "try_manual transcript_list v =
     (let manual_transcripts = filter (\<lambda>t. \<not> is_generated t) transcript_list in
      case manual_transcripts of
        [] \<Rightarrow> (v, [])
      | transcript_to_fetch # _ \<Rightarrow>
          (case next_en manual_transcripts of
             Some english_manual \<Rightarrow> fetch_into english_manual ''en'' False v
           | None \<Rightarrow>
               fetch_into transcript_to_fetch (language_code transcript_to_fetch) False v))"

text \<open>Lines 100 to 121: the attempt on the generated ones, made when nothing was found.\<close>

definition try_generated :: "descriptor list \<Rightarrow> vars \<Rightarrow> vars \<times> call list" where
  "try_generated transcript_list v =
     (if \<not> truthy (found_transcript v) then
        (let generated_transcripts = filter (\<lambda>t. is_generated t) transcript_list in
         case generated_transcripts of
           [] \<Rightarrow> (v, [])
         | transcript_to_fetch # _ \<Rightarrow>
             (case next_en generated_transcripts of
                Some english_generated \<Rightarrow> fetch_into english_generated ''en_generated'' True v
              | None \<Rightarrow>
                  fetch_into transcript_to_fetch
                    (language_code transcript_to_fetch @ ''_generated'') True v))
      else (v, []))"

definition failure :: "string \<Rightarrow> response" where
  "failure reason =
     \<lparr>success = False, fail_reason = Some reason, language = None, transcript = None\<rparr>"

text \<open>
  What \<open>str(e)\<close> is for the \<open>AttributeError\<close> that \<open>language_code.endswith\<close> raises when
  \<open>language_code\<close> is \<open>None\<close>.
\<close>

definition none_endswith_msg :: string where
  "none_endswith_msg =
     [CHR 0x27] @ ''NoneType'' @ [CHR 0x27] @ '' object has no attribute '' @
     [CHR 0x27] @ ''endswith'' @ [CHR 0x27]"

text \<open>
  Lines 123 to 146: the response; \<open>if found_transcript\<close> fails for \<open>None\<close> and for the
  empty list. An exception raised here is caught by the last handler of the outer \<open>try\<close>
  (lines 164 to 171).
\<close>

definition respond :: "vars \<Rightarrow> response" where
  "respond v =
     (case found_transcript v of
        None \<Rightarrow> failure ''no_transcript_available''
      | Some segs \<Rightarrow>
          if segs = [] then failure ''no_transcript_available''
          else
            (let transcript_text = join '' '' (map seg_text segs) in
             case var_language_code v of
               None \<Rightarrow> failure (''other: '' @ none_endswith_msg)
             | Some lc \<Rightarrow>
                 (let final_language_code =
                        (if var_is_generated v \<and> \<not> endswith lc ''_generated''
                         then lc @ ''_generated''
                         else if \<not> var_is_generated v \<and> endswith lc ''_generated''
                         then replace lc ''_generated'' []
                         else lc)
                  in \<lparr>success = True, fail_reason = None,
                      language = Some final_language_code,
                      transcript = Some transcript_text\<rparr>)))"

text \<open>
  Lines 65 to 171: the outer \<open>try\<close>, for a client \<open>ytt_api\<close> and a video identifier. The
  result is the response and the requests sent to the service.
\<close>

definition select_transcript :: "api \<Rightarrow> string \<Rightarrow> response \<times> call list" where
  "select_transcript ytt_api video_id =
     (case ytt_api video_id of
        Inl TranscriptsDisabled \<Rightarrow> (failure ''transcripts_disabled'', [ListTranscripts video_id])
      | Inl NoTranscriptFound \<Rightarrow>
          (failure ''no_transcript_found_for_video'', [ListTranscripts video_id])
      | Inl (OtherException msg) \<Rightarrow> (failure (''other: '' @ msg), [ListTranscripts video_id])
      | Inr transcript_list \<Rightarrow>
          (let (v1, calls1) = try_manual transcript_list init_vars;
               (v2, calls2) = try_generated transcript_list v1
           in (respond v2, ListTranscripts video_id # calls1 @ calls2)))"

text \<open>
  Lines 44 to 63: the client. \<open>os.getenv\<close> reads the environment, a map from names to
  values; \<open>if proxy_username and proxy_password\<close> asks for both to be set and not empty.
  \<open>mk_api\<close> stands for the constructor \<open>YouTubeTranscriptApi\<close>, with or without a proxy
  configuration.
\<close>

definition proxy_of_env :: "(string \<rightharpoonup> string) \<Rightarrow> proxy_config option" where
  "proxy_of_env env =
     (case (env ''WEBSHARE_USERNAME'', env ''WEBSHARE_PASSWORD'') of
        (Some u, Some p) \<Rightarrow>
          if u \<noteq> [] \<and> p \<noteq> [] then Some \<lparr>proxy_username = u, proxy_password = p\<rparr> else None
      | _ \<Rightarrow> None)"

text \<open>
  The endpoint. \<open>if not video_id\<close> holds for \<open>None\<close> and for the empty string. The
  warning printed when no proxy is configured is not part of the result.
\<close>

definition get_transcript ::
  "(proxy_config option \<Rightarrow> api) \<Rightarrow> (string \<rightharpoonup> string) \<Rightarrow> string \<Rightarrow> response \<times> call list" where
  "get_transcript mk_api env url =
     (case extract_video_id url of
        None \<Rightarrow> (failure ''invalid_url'', [])
      | Some video_id \<Rightarrow>
          if video_id = [] then (failure ''invalid_url'', [])
          else select_transcript (mk_api (proxy_of_env env)) video_id)"

section \<open>The selection policy in the words of the specification\<close>

text \<open>
  The specification partitions the descriptors into a manual and a generated group and,
  within a group, takes the descriptor whose language code is \<open>en\<close> if there is one and the
  first descriptor of the group otherwise. These definitions follow that wording; the
  theorems below compare the endpoint with them.
\<close>

definition manual_group :: "descriptor list \<Rightarrow> descriptor list" where
  "manual_group ts = filter (\<lambda>t. \<not> is_generated t) ts"

definition generated_group :: "descriptor list \<Rightarrow> descriptor list" where
  "generated_group ts = filter (\<lambda>t. is_generated t) ts"

definition preferred :: "descriptor list \<Rightarrow> descriptor option" where
  "preferred grp =
     (case find (\<lambda>t. language_code t = ''en'') grp of
        Some e \<Rightarrow> Some e
      | None \<Rightarrow> (case grp of [] \<Rightarrow> None | t # _ \<Rightarrow> Some t))"

text \<open>A fetch that returns at least one segment.\<close>

definition fetched_ok :: "descriptor \<Rightarrow> bool" where
  "fetched_ok t = (case fetch t of Inl e \<Rightarrow> False | Inr segs \<Rightarrow> segs \<noteq> [])"

text \<open>A group yields a transcript when its preferred descriptor is fetched so.\<close>

definition yields :: "descriptor list \<Rightarrow> bool" where
  "yields grp = (case preferred grp of None \<Rightarrow> False | Some t \<Rightarrow> fetched_ok t)"

text \<open>The language reported for a manual transcript whose language code is \<open>lc\<close>.\<close>

definition manual_label :: "string \<Rightarrow> string" where
  "manual_label lc = (if endswith lc ''_generated'' then replace lc ''_generated'' [] else lc)"

section \<open>The language of a pattern\<close>

text \<open>
  The strings a pattern matches, independently of the order in which a matcher finds
  them, and the patterns that occur somewhere in a string.
\<close>

fun lang :: "rx \<Rightarrow> string set" where
  "lang Eps = {[]}"
| "lang (One c) = {[x] | x. cls_ok c x}"
| "lang (Star c) = {w. list_all (cls_ok c) w}"
| "lang (Seq a b) = {u @ v | u v. u \<in> lang a \<and> v \<in> lang b}"
| "lang (Alt a b) = lang a \<union> lang b"
| "lang (Grp r) = lang r"

definition occurs :: "rx \<Rightarrow> string \<Rightarrow> bool" where
  "occurs r s = (\<exists>pre w post. s = pre @ w @ post \<and> w \<in> lang r)"

definition heads :: "rx list" where
  "heads = [head1, head2, head3]"

text \<open>The characters at which an identifier ends.\<close>

definition stops :: "char set" where
  "stops = {CHR ''#'', CHR ''&'', CHR ''?''}"

text \<open>The fetch request a group gives rise to: one for its preferred descriptor.\<close>

definition manual_calls :: "descriptor list \<Rightarrow> call list" where
  "manual_calls ts = (case preferred (manual_group ts) of None \<Rightarrow> [] | Some t \<Rightarrow> [Fetch t])"

definition generated_calls :: "descriptor list \<Rightarrow> call list" where
  "generated_calls ts = (case preferred (generated_group ts) of None \<Rightarrow> [] | Some t \<Rightarrow> [Fetch t])"

section \<open>Sample inputs\<close>

text \<open>A client whose \<open>list_transcripts\<close> returns the same descriptors for every video.\<close>

definition listing :: "descriptor list \<Rightarrow> api" where
  "listing ts = (\<lambda>video_id. Inr ts)"

text \<open>A client whose \<open>list_transcripts\<close> raises.\<close>

definition raising :: "exn \<Rightarrow> api" where
  "raising e = (\<lambda>video_id. Inl e)"

text \<open>A constructor that ignores the proxy configuration.\<close>

definition direct :: "api \<Rightarrow> proxy_config option \<Rightarrow> api" where
  "direct a = (\<lambda>proxy. a)"

definition seg :: "string \<Rightarrow> segment" where
  "seg t = \<lparr>seg_text = t, start = 0, duration = 1\<rparr>"

definition desc :: "string \<Rightarrow> bool \<Rightarrow> exn + segment list \<Rightarrow> descriptor" where
  "desc lc gen f = \<lparr>language_code = lc, is_generated = gen, fetch = f\<rparr>"

definition en_manual_failing :: descriptor where
  "en_manual_failing = desc ''en'' False (Inl (OtherException ''boom''))"

definition fr_manual :: descriptor where
  "fr_manual = desc ''fr'' False (Inr [seg ''Bonjour''])"

definition en_generated :: descriptor where
  "en_generated = desc ''en'' True (Inr [seg ''Hello'', seg ''world''])"

definition es_generated :: descriptor where
  "es_generated = desc ''es'' True (Inr [seg ''Hola''])"

definition pt_suffixed_manual :: descriptor where
  "pt_suffixed_manual = desc ''pt_generated'' False (Inr [seg ''Bom dia''])"

section \<open>Properties\<close>

subsection \<open>The two attempts and the response\<close>

lemma find_en_code:
  "find (\<lambda>t. language_code t = ''en'') grp = Some e \<Longrightarrow> language_code e = ''en''"
  by (induction grp) (auto split: if_splits)

lemma preferred_mem: "preferred grp = Some t \<Longrightarrow> t \<in> set grp"
  by (auto simp: preferred_def find_Some_iff split: option.splits list.splits)

lemma preferred_manual: "preferred (manual_group ts) = Some t \<Longrightarrow> \<not> is_generated t \<and> t \<in> set ts"
  using preferred_mem [of "manual_group ts" t] by (simp add: manual_group_def)

lemma try_manual_preferred:
  "try_manual ts v =
     (case preferred (manual_group ts) of
        None \<Rightarrow> (v, [])
      | Some t \<Rightarrow> fetch_into t (language_code t) False v)"
  by (auto simp: try_manual_def preferred_def manual_group_def next_en_def
      split: list.splits option.splits dest: find_en_code)

lemma try_generated_preferred:
  "try_generated ts v =
     (if truthy (found_transcript v) then (v, [])
      else case preferred (generated_group ts) of
        None \<Rightarrow> (v, [])
      | Some t \<Rightarrow> fetch_into t (language_code t @ ''_generated'') True v)"
  by (auto simp: try_generated_def preferred_def generated_group_def next_en_def
      split: list.splits option.splits dest: find_en_code)

lemma endswith_append: "endswith (a @ b) b"
  by (simp add: endswith_def)

lemma fetch_into_ok:
  "fetch t = Inr segs \<Longrightarrow>
   fetch_into t lc gen v =
     (\<lparr>found_transcript = Some segs, var_language_code = Some lc, var_is_generated = gen\<rparr>, [Fetch t])"
  by (simp add: fetch_into_def)

lemma respond_manual:
  "segs \<noteq> [] \<Longrightarrow>
   respond \<lparr>found_transcript = Some segs, var_language_code = Some lc, var_is_generated = False\<rparr> =
     \<lparr>success = True, fail_reason = None, language = Some (manual_label lc),
      transcript = Some (join '' '' (map seg_text segs))\<rparr>"
  by (simp add: respond_def manual_label_def)

lemma respond_generated:
  "segs \<noteq> [] \<Longrightarrow>
   respond \<lparr>found_transcript = Some segs, var_language_code = Some (lc @ ''_generated''),
            var_is_generated = True\<rparr> =
     \<lparr>success = True, fail_reason = None, language = Some (lc @ ''_generated''),
      transcript = Some (join '' '' (map seg_text segs))\<rparr>"
  by (simp add: respond_def endswith_append)

lemma respond_falsy:
  "\<not> truthy (found_transcript v) \<Longrightarrow> respond v = failure ''no_transcript_available''"
  by (simp add: respond_def truthy_def split: option.splits)

lemma select_manual_ok:
  assumes "ytt_api vid = Inr ts" "preferred (manual_group ts) = Some t"
    "fetch t = Inr segs" "segs \<noteq> []"
  shows "select_transcript ytt_api vid =
     (\<lparr>success = True, fail_reason = None, language = Some (manual_label (language_code t)),
       transcript = Some (join '' '' (map seg_text segs))\<rparr>,
      [ListTranscripts vid, Fetch t])"
  using assms
  by (simp add: select_transcript_def try_manual_preferred try_generated_preferred
      fetch_into_ok truthy_def respond_manual)

lemma try_manual_falsy:
  "\<not> yields (manual_group ts) \<Longrightarrow>
   \<not> truthy (found_transcript (fst (try_manual ts init_vars))) \<and>
   snd (try_manual ts init_vars) = manual_calls ts"
  by (auto simp: try_manual_preferred yields_def fetched_ok_def fetch_into_def truthy_def
      init_vars_def manual_calls_def split: option.splits sum.splits)

lemma select_generated_ok:
  assumes "ytt_api vid = Inr ts" "\<not> yields (manual_group ts)"
    "preferred (generated_group ts) = Some t" "fetch t = Inr segs" "segs \<noteq> []"
  shows "select_transcript ytt_api vid =
     (\<lparr>success = True, fail_reason = None, language = Some (language_code t @ ''_generated''),
       transcript = Some (join '' '' (map seg_text segs))\<rparr>,
      ListTranscripts vid # manual_calls ts @ [Fetch t])"
  using assms try_manual_falsy [of ts]
  by (cases "try_manual ts init_vars")
     (simp add: select_transcript_def try_generated_preferred fetch_into_ok respond_generated)

lemma select_nothing:
  assumes "ytt_api vid = Inr ts" "\<not> yields (manual_group ts)" "\<not> yields (generated_group ts)"
  shows "select_transcript ytt_api vid =
     (failure ''no_transcript_available'',
      ListTranscripts vid # manual_calls ts @ generated_calls ts)"
proof -
  obtain v1 c1 where m: "try_manual ts init_vars = (v1, c1)" by (cases "try_manual ts init_vars")
  with try_manual_falsy [OF assms(2)] have f1: "\<not> truthy (found_transcript v1)" and c1: "c1 = manual_calls ts"
    by simp_all
  obtain v2 c2 where g: "try_generated ts v1 = (v2, c2)" by (cases "try_generated ts v1")
  have "\<not> truthy (found_transcript v2) \<and> c2 = generated_calls ts"
    using g f1 assms(3)
    by (auto simp: try_generated_preferred yields_def fetched_ok_def fetch_into_def truthy_def
        generated_calls_def split: option.splits sum.splits)
  then show ?thesis
    using assms(1) m g c1 by (simp add: select_transcript_def respond_falsy)
qed

subsection \<open>The endpoint on a valid URL\<close>

lemma get_transcript_valid:
  "extract_video_id url = Some vid \<Longrightarrow> vid \<noteq> [] \<Longrightarrow>
   get_transcript mk_api env url = select_transcript (mk_api (proxy_of_env env)) vid"
  by (simp add: get_transcript_def)

lemma extract_v_a: "extract_video_id ''v=a'' = Some ''a''"
  by code_simp

text \<open>
  C6. When \<open>list_transcripts\<close> raises \<open>TranscriptsDisabled\<close> for the video, the endpoint
  answers \<open>success = False\<close> with the reason \<open>transcripts_disabled\<close>; when it raises
  \<open>NoTranscriptFound\<close>, the reason is \<open>no_transcript_found_for_video\<close>. In both cases
  \<open>language\<close> and \<open>transcript\<close> are null.
\<close>

theorem service_signal_reasons:
  assumes "extract_video_id url = Some vid" and "vid \<noteq> []"
  shows "(mk_api (proxy_of_env env) vid = Inl TranscriptsDisabled \<longrightarrow>
            fst (get_transcript mk_api env url) =
              \<lparr>success = False, fail_reason = Some ''transcripts_disabled'',
               language = None, transcript = None\<rparr>) \<and>
         (mk_api (proxy_of_env env) vid = Inl NoTranscriptFound \<longrightarrow>
            fst (get_transcript mk_api env url) =
              \<lparr>success = False, fail_reason = Some ''no_transcript_found_for_video'',
               language = None, transcript = None\<rparr>)"
  using assms by (simp add: get_transcript_valid select_transcript_def failure_def)

theorem service_signal_reasons_witness:
  "extract_video_id ''v=a'' = Some ''a'' \<and>
   direct (raising TranscriptsDisabled) (proxy_of_env Map.empty) ''a'' = Inl TranscriptsDisabled \<and>
   fst (get_transcript (direct (raising TranscriptsDisabled)) Map.empty ''v=a'') =
     \<lparr>success = False, fail_reason = Some ''transcripts_disabled'',
      language = None, transcript = None\<rparr> \<and>
   direct (raising NoTranscriptFound) (proxy_of_env Map.empty) ''a'' = Inl NoTranscriptFound \<and>
   fst (get_transcript (direct (raising NoTranscriptFound)) Map.empty ''v=a'') =
     \<lparr>success = False, fail_reason = Some ''no_transcript_found_for_video'',
      language = None, transcript = None\<rparr>"
  using service_signal_reasons [OF extract_v_a, of "direct (raising TranscriptsDisabled)" Map.empty]
    service_signal_reasons [OF extract_v_a, of "direct (raising NoTranscriptFound)" Map.empty]
  by (simp add: extract_v_a direct_def raising_def)

subsection \<open>What a successful listing leads to\<close>

lemma fetched_okD: "fetched_ok t \<Longrightarrow> \<exists>segs. fetch t = Inr segs \<and> segs \<noteq> []"
  by (auto simp: fetched_ok_def split: sum.splits)

lemma yieldsD:
  "yields grp \<Longrightarrow> \<exists>t segs. preferred grp = Some t \<and> fetch t = Inr segs \<and> segs \<noteq> []"
  by (auto simp: yields_def split: option.splits dest: fetched_okD)

lemma manual_label_en: "manual_label ''en'' = ''en''"
  by (simp add: manual_label_def endswith_def)

lemma select_outcomes:
  assumes "ytt_api vid = Inr ts"
  shows "fst (select_transcript ytt_api vid) = failure ''no_transcript_available'' \<or>
         (success (fst (select_transcript ytt_api vid)) \<and>
          fail_reason (fst (select_transcript ytt_api vid)) = None)"
proof (cases "yields (manual_group ts)")
  case True
  then obtain t segs where "preferred (manual_group ts) = Some t" "fetch t = Inr segs" "segs \<noteq> []"
    using yieldsD by blast
  then show ?thesis using select_manual_ok [of ytt_api vid, OF assms] by simp
next
  case False
  show ?thesis
  proof (cases "yields (generated_group ts)")
    case True
    then obtain t segs where "preferred (generated_group ts) = Some t" "fetch t = Inr segs" "segs \<noteq> []"
      using yieldsD by blast
    then show ?thesis using select_generated_ok [of ytt_api vid, OF assms False] by simp
  next
    case g: False
    show ?thesis using select_nothing [of ytt_api vid, OF assms False g] by simp
  qed
qed

lemma select_success_iff:
  assumes "ytt_api vid = Inr ts"
  shows "success (fst (select_transcript ytt_api vid)) \<longleftrightarrow>
         yields (manual_group ts) \<or> yields (generated_group ts)"
proof (cases "yields (manual_group ts)")
  case True
  then obtain t segs where "preferred (manual_group ts) = Some t" "fetch t = Inr segs" "segs \<noteq> []"
    using yieldsD by blast
  then show ?thesis using select_manual_ok [of ytt_api vid, OF assms] True by simp
next
  case False
  show ?thesis
  proof (cases "yields (generated_group ts)")
    case True
    then obtain t segs where "preferred (generated_group ts) = Some t" "fetch t = Inr segs" "segs \<noteq> []"
      using yieldsD by blast
    then show ?thesis using select_generated_ok [of ytt_api vid, OF assms False] True by simp
  next
    case g: False
    show ?thesis using select_nothing [of ytt_api vid, OF assms False g] False g by (simp add: failure_def)
  qed
qed

lemma groups_of_generated_group:
  "manual_group (generated_group ts) = []" "generated_group (generated_group ts) = generated_group ts"
  by (simp_all add: manual_group_def generated_group_def)

lemma yields_Nil: "\<not> yields []"
  by (simp add: yields_def preferred_def)

lemma select_calls:
  "set (snd (select_transcript ytt_api vid)) \<subseteq> insert (ListTranscripts vid) (range Fetch)"
  by (auto simp: select_transcript_def try_manual_preferred try_generated_preferred
      fetch_into_def split: sum.splits exn.splits option.splits prod.splits if_splits)

lemma length_join_space:
  "length (join sep xs) = sum_list (map length xs) + (length xs - 1) * length sep"
  by (induction sep xs rule: join.induct) simp_all

text \<open>
  C5, as the code has it. A failure of \<open>list_transcripts\<close> that is neither
  \<open>TranscriptsDisabled\<close> nor \<open>NoTranscriptFound\<close> gives \<open>success = False\<close> and the reason
  \<open>other: <message>\<close>. Once the listing has succeeded the reason is never of that form:
  a failure raised while a descriptor is fetched is dropped by the inner handlers.
\<close>

theorem other_reason_from_listing:
  assumes "extract_video_id url = Some vid" and "vid \<noteq> []"
  shows "(mk_api (proxy_of_env env) vid = Inl (OtherException msg) \<longrightarrow>
            fst (get_transcript mk_api env url) =
              \<lparr>success = False, fail_reason = Some (''other: '' @ msg),
               language = None, transcript = None\<rparr>) \<and>
         (mk_api (proxy_of_env env) vid = Inr ts \<longrightarrow>
            fail_reason (fst (get_transcript mk_api env url)) = None \<or>
            fail_reason (fst (get_transcript mk_api env url)) = Some ''no_transcript_available'')"
proof -
  have g: "get_transcript mk_api env url = select_transcript (mk_api (proxy_of_env env)) vid"
    using assms by (rule get_transcript_valid)
  have "mk_api (proxy_of_env env) vid = Inl (OtherException msg) \<Longrightarrow>
        fst (select_transcript (mk_api (proxy_of_env env)) vid) = failure (''other: '' @ msg)"
    by (simp add: select_transcript_def)
  moreover have "mk_api (proxy_of_env env) vid = Inr ts \<Longrightarrow>
        fail_reason (fst (select_transcript (mk_api (proxy_of_env env)) vid)) = None \<or>
        fail_reason (fst (select_transcript (mk_api (proxy_of_env env)) vid)) =
          Some ''no_transcript_available''"
    using select_outcomes [of "mk_api (proxy_of_env env)" vid ts] by (auto simp: failure_def)
  ultimately show ?thesis
    unfolding g by (simp add: failure_def)
qed

theorem other_reason_from_listing_witness:
  "extract_video_id ''v=a'' = Some ''a'' \<and>
   fst (get_transcript (direct (raising (OtherException ''boom''))) Map.empty ''v=a'') =
     \<lparr>success = False, fail_reason = Some ''other: boom'', language = None, transcript = None\<rparr> \<and>
   fail_reason (fst (get_transcript (direct (listing [en_manual_failing])) Map.empty ''v=a'')) =
     Some ''no_transcript_available''"
proof -
  have a: "''a'' \<noteq> []" by simp
  have "fst (get_transcript (direct (listing [en_manual_failing])) Map.empty ''v=a'') =
        failure ''no_transcript_available''"
    by (simp add: get_transcript_def extract_v_a direct_def listing_def select_transcript_def
        try_manual_def try_generated_def next_en_def fetch_into_def en_manual_failing_def
        desc_def init_vars_def truthy_def respond_def)
  then show ?thesis
    using other_reason_from_listing [OF extract_v_a a,
        of "direct (raising (OtherException ''boom''))" Map.empty "''boom''" "[]"]
    by (simp add: extract_v_a direct_def raising_def failure_def)
qed

theorem other_reason_counterexample:
  "fetch en_manual_failing = Inl (OtherException ''boom'') \<and>
   snd (get_transcript (direct (listing [en_manual_failing])) Map.empty ''v=a'') =
     [ListTranscripts ''a'', Fetch en_manual_failing] \<and>
   fail_reason (fst (get_transcript (direct (listing [en_manual_failing])) Map.empty ''v=a'')) =
     Some ''no_transcript_available'' \<and>
   fail_reason (fst (get_transcript (direct (listing [en_manual_failing])) Map.empty ''v=a'')) \<noteq>
     Some ''other: boom''"
  by (simp add: get_transcript_def extract_v_a direct_def listing_def select_transcript_def
      try_manual_def try_generated_def next_en_def fetch_into_def en_manual_failing_def
      desc_def init_vars_def truthy_def respond_def failure_def)

text \<open>
  C7. When the listing succeeds and neither the manual nor the generated group yields a
  fetched transcript, the endpoint answers \<open>success = False\<close>,
  \<open>fail_reason = no_transcript_available\<close>, \<open>language\<close> and \<open>transcript\<close> null; the empty
  list is such a listing. A group does not yield when it is empty, when the fetch of its
  preferred descriptor raises, and when that fetch returns no segment. In every other case
  the endpoint answers with a success.
\<close>

theorem no_transcript_available_reason:
  assumes "extract_video_id url = Some vid" and "vid \<noteq> []"
    and "mk_api (proxy_of_env env) vid = Inr ts"
  shows "(\<not> yields (manual_group ts) \<and> \<not> yields (generated_group ts) \<longrightarrow>
            fst (get_transcript mk_api env url) =
              \<lparr>success = False, fail_reason = Some ''no_transcript_available'',
               language = None, transcript = None\<rparr>) \<and>
         (ts = [] \<longrightarrow>
            fst (get_transcript mk_api env url) =
              \<lparr>success = False, fail_reason = Some ''no_transcript_available'',
               language = None, transcript = None\<rparr>) \<and>
         (yields (manual_group ts) \<or> yields (generated_group ts) \<longrightarrow>
            success (fst (get_transcript mk_api env url)))"
proof -
  have g: "get_transcript mk_api env url = select_transcript (mk_api (proxy_of_env env)) vid"
    using assms(1,2) by (rule get_transcript_valid)
  have n: "\<not> yields (manual_group ts) \<Longrightarrow> \<not> yields (generated_group ts) \<Longrightarrow>
      fst (select_transcript (mk_api (proxy_of_env env)) vid) = failure ''no_transcript_available''"
    using select_nothing [of "mk_api (proxy_of_env env)" vid ts] assms(3) by simp
  have e: "ts = [] \<Longrightarrow> \<not> yields (manual_group ts) \<and> \<not> yields (generated_group ts)"
    by (simp add: manual_group_def generated_group_def yields_Nil)
  show ?thesis
    unfolding g
    using n e select_success_iff [of "mk_api (proxy_of_env env)" vid ts, OF assms(3)]
    by (auto simp: failure_def)
qed

theorem no_transcript_available_reason_witness:
  "extract_video_id ''v=a'' = Some ''a'' \<and>
   \<not> yields (manual_group [en_manual_failing]) \<and>
   \<not> yields (generated_group [en_manual_failing]) \<and>
   fst (get_transcript (direct (listing [en_manual_failing])) Map.empty ''v=a'') =
     \<lparr>success = False, fail_reason = Some ''no_transcript_available'',
      language = None, transcript = None\<rparr> \<and>
   fst (get_transcript (direct (listing [])) Map.empty ''v=a'') =
     \<lparr>success = False, fail_reason = Some ''no_transcript_available'',
      language = None, transcript = None\<rparr> \<and>
   yields (manual_group [fr_manual]) \<and>
   success (fst (get_transcript (direct (listing [fr_manual])) Map.empty ''v=a''))"
proof -
  have a: "''a'' \<noteq> []" by simp
  have y: "\<not> yields (manual_group [en_manual_failing])"
    "\<not> yields (generated_group [en_manual_failing])" "yields (manual_group [fr_manual])"
    by (simp_all add: yields_def preferred_def manual_group_def generated_group_def
        fetched_ok_def en_manual_failing_def fr_manual_def desc_def)
  show ?thesis
    using y
      no_transcript_available_reason [OF extract_v_a a,
        of "direct (listing [en_manual_failing])" Map.empty "[en_manual_failing]"]
      no_transcript_available_reason [OF extract_v_a a, of "direct (listing [])" Map.empty "[]"]
      no_transcript_available_reason [OF extract_v_a a,
        of "direct (listing [fr_manual])" Map.empty "[fr_manual]"]
    by (simp add: extract_v_a direct_def listing_def)
qed

text \<open>
  C9. When the fetch of the preferred manual descriptor raises, the exception is dropped
  and the generated group is evaluated: the response is the one the generated descriptors
  alone would give, and the requests are the listing, the failed fetch and then the fetch
  the generated group gives rise to. When the fetch of the preferred generated descriptor
  raises as well, the answer is \<open>success = False\<close> with the reason
  \<open>no_transcript_available\<close>. After a successful listing the reason is never anything
  else: no exception of a fetch reaches \<open>fail_reason\<close>.
\<close>

theorem fetch_failures_suppressed:
  assumes "extract_video_id url = Some vid" and "vid \<noteq> []"
    and "mk_api (proxy_of_env env) vid = Inr ts"
  shows "(preferred (manual_group ts) = Some m \<and> fetch m = Inl e \<longrightarrow>
            fst (get_transcript mk_api env url) =
              fst (select_transcript (listing (generated_group ts)) vid) \<and>
            snd (get_transcript mk_api env url) =
              ListTranscripts vid # Fetch m # generated_calls ts \<and>
            (preferred (generated_group ts) = Some g \<and> fetch g = Inl e' \<longrightarrow>
               get_transcript mk_api env url =
                 (\<lparr>success = False, fail_reason = Some ''no_transcript_available'',
                   language = None, transcript = None\<rparr>,
                  [ListTranscripts vid, Fetch m, Fetch g]))) \<and>
         (fail_reason (fst (get_transcript mk_api env url)) = None \<or>
          fail_reason (fst (get_transcript mk_api env url)) = Some ''no_transcript_available'')"
proof -
  let ?api = "mk_api (proxy_of_env env)"
  have g: "get_transcript mk_api env url = select_transcript ?api vid"
    using assms(1,2) by (rule get_transcript_valid)
  have never: "fail_reason (fst (select_transcript ?api vid)) = None \<or>
      fail_reason (fst (select_transcript ?api vid)) = Some ''no_transcript_available''"
    using select_outcomes [of ?api vid ts, OF assms(3)] by (auto simp: failure_def)
  have raised: "fst (select_transcript ?api vid) =
        fst (select_transcript (listing (generated_group ts)) vid) \<and>
      snd (select_transcript ?api vid) = ListTranscripts vid # Fetch m # generated_calls ts \<and>
      (preferred (generated_group ts) = Some g \<and> fetch g = Inl e' \<longrightarrow>
         select_transcript ?api vid =
           (failure ''no_transcript_available'', [ListTranscripts vid, Fetch m, Fetch g]))"
    if m: "preferred (manual_group ts) = Some m" and e: "fetch m = Inl e"
  proof -
    let ?gs = "generated_group ts"
    have l: "listing ?gs vid = Inr ?gs" by (simp add: listing_def)
    have nm: "\<not> yields (manual_group ts)"
      using m e by (simp add: yields_def fetched_ok_def)
    have nm': "\<not> yields (manual_group ?gs)"
      by (simp add: groups_of_generated_group yields_Nil)
    have mc: "manual_calls ts = [Fetch m]" using m by (simp add: manual_calls_def)
    show ?thesis
    proof (cases "yields ?gs")
      case True
      then obtain t segs where t: "preferred ?gs = Some t" "fetch t = Inr segs" "segs \<noteq> []"
        using yieldsD by blast
      have t': "preferred (generated_group ?gs) = Some t"
        using t(1) by (simp add: groups_of_generated_group)
      show ?thesis
        using select_generated_ok [of ?api vid ts t segs, OF assms(3) nm t]
          select_generated_ok [of "listing ?gs" vid ?gs t segs, OF l nm' t' t(2,3)] t mc
        by (auto simp: generated_calls_def)
    next
      case False
      have ng': "\<not> yields (generated_group ?gs)"
        using False by (simp add: groups_of_generated_group)
      show ?thesis
        using select_nothing [of ?api vid ts, OF assms(3) nm False]
          select_nothing [of "listing ?gs" vid ?gs, OF l nm' ng'] mc
        by (auto simp: generated_calls_def)
    qed
  qed
  show ?thesis
    unfolding g using never raised by (simp add: failure_def)
qed

theorem fetch_failures_suppressed_witness:
  "extract_video_id ''v=a'' = Some ''a'' \<and>
   preferred (manual_group [en_manual_failing, desc ''en'' True (Inl NoTranscriptFound)]) =
     Some en_manual_failing \<and>
   fetch en_manual_failing = Inl (OtherException ''boom'') \<and>
   get_transcript (direct (listing [en_manual_failing, desc ''en'' True (Inl NoTranscriptFound)]))
       Map.empty ''v=a'' =
     (\<lparr>success = False, fail_reason = Some ''no_transcript_available'',
       language = None, transcript = None\<rparr>,
      [ListTranscripts ''a'', Fetch en_manual_failing,
       Fetch (desc ''en'' True (Inl NoTranscriptFound))])"
proof -
  have a: "''a'' \<noteq> []" by simp
  let ?g = "desc ''en'' True (Inl NoTranscriptFound)"
  have p: "preferred (manual_group [en_manual_failing, ?g]) = Some en_manual_failing"
    "preferred (generated_group [en_manual_failing, ?g]) = Some ?g"
    "fetch en_manual_failing = Inl (OtherException ''boom'')" "fetch ?g = Inl NoTranscriptFound"
    by (simp_all add: preferred_def manual_group_def generated_group_def
        en_manual_failing_def desc_def)
  show ?thesis
    using p fetch_failures_suppressed [OF extract_v_a a,
        of "direct (listing [en_manual_failing, ?g])" Map.empty "[en_manual_failing, ?g]"
          en_manual_failing "OtherException ''boom''" ?g NoTranscriptFound]
    by (simp add: extract_v_a direct_def listing_def)
qed

subsection \<open>Which transcript is selected\<close>

text \<open>
  C1, as the code has it. When the preferred descriptor of the manual group (its first
  descriptor with the language code \<open>en\<close>, otherwise its first descriptor) is fetched
  with at least one segment, the selector answers with that manual transcript and sends no
  request for a generated descriptor, whatever the languages are. For the descriptors
  \<open>[{fr, generated = false}, {en, generated = true}]\<close> the language reported is \<open>fr\<close>.
  Nothing is promised by a manual descriptor that is not the preferred one.
\<close>

theorem manual_preferred_when_fetched:
  assumes "ytt_api vid = Inr ts" and "preferred (manual_group ts) = Some m"
    and "fetch m = Inr segs" and "segs \<noteq> []"
  shows "\<not> is_generated m \<and>
         select_transcript ytt_api vid =
           (\<lparr>success = True, fail_reason = None,
             language = Some (manual_label (language_code m)),
             transcript = Some (join '' '' (map seg_text segs))\<rparr>,
            [ListTranscripts vid, Fetch m]) \<and>
         (\<forall>g. is_generated g \<longrightarrow> Fetch g \<notin> set (snd (select_transcript ytt_api vid))) \<and>
         (\<forall>f. language
                (fst (select_transcript (listing [desc ''fr'' False (Inr segs), desc ''en'' True f])
                   vid)) = Some ''fr'')"
proof -
  have ng: "\<not> is_generated m" using preferred_manual [OF assms(2)] by simp
  have sel: "select_transcript ytt_api vid =
      (\<lparr>success = True, fail_reason = None,
        language = Some (manual_label (language_code m)),
        transcript = Some (join '' '' (map seg_text segs))\<rparr>,
       [ListTranscripts vid, Fetch m])"
    using assms by (rule select_manual_ok)
  have fr: "language
      (fst (select_transcript (listing [desc ''fr'' False (Inr segs), desc ''en'' True f]) vid)) =
      Some ''fr''" for f
  proof -
    let ?ts = "[desc ''fr'' False (Inr segs), desc ''en'' True f]"
    have p: "preferred (manual_group ?ts) = Some (desc ''fr'' False (Inr segs))"
      by (simp add: preferred_def manual_group_def desc_def)
    have "manual_label ''fr'' = ''fr''" by (simp add: manual_label_def endswith_def)
    then show ?thesis
      using select_manual_ok [of "listing ?ts" vid ?ts "desc ''fr'' False (Inr segs)" segs, OF _ p]
        assms(4)
      by (simp add: listing_def desc_def)
  qed
  show ?thesis
    using ng sel fr by auto
qed

theorem manual_preferred_when_fetched_witness:
  "preferred (manual_group [fr_manual, en_generated]) = Some fr_manual \<and>
   fetch fr_manual = Inr [seg ''Bonjour''] \<and>
   select_transcript (listing [fr_manual, en_generated]) ''a'' =
     (\<lparr>success = True, fail_reason = None, language = Some ''fr'',
       transcript = Some ''Bonjour''\<rparr>,
      [ListTranscripts ''a'', Fetch fr_manual])"
proof -
  have p: "preferred (manual_group [fr_manual, en_generated]) = Some fr_manual"
    "fetch fr_manual = Inr [seg ''Bonjour'']" "[seg ''Bonjour''] \<noteq> []"
    "language_code fr_manual = ''fr''"
    by (simp_all add: preferred_def manual_group_def fr_manual_def en_generated_def desc_def)
  have l: "listing [fr_manual, en_generated] ''a'' = Inr [fr_manual, en_generated]"
    by (simp add: listing_def)
  have "manual_label ''fr'' = ''fr''" by (simp add: manual_label_def endswith_def)
  then show ?thesis
    using p manual_preferred_when_fetched [of "listing [fr_manual, en_generated]" "''a''"
        "[fr_manual, en_generated]" fr_manual "[seg ''Bonjour'']", OF l p(1) p(2) p(3)]
    by (simp add: seg_def)
qed

theorem manual_preferred_counterexample:
  "fr_manual \<in> set [en_manual_failing, fr_manual, en_generated] \<and>
   \<not> is_generated fr_manual \<and>
   fetch fr_manual = Inr [seg ''Bonjour''] \<and>
   is_generated en_generated \<and>
   select_transcript (listing [en_manual_failing, fr_manual, en_generated]) ''a'' =
     (\<lparr>success = True, fail_reason = None, language = Some ''en_generated'',
       transcript = Some ''Hello world''\<rparr>,
      [ListTranscripts ''a'', Fetch en_manual_failing, Fetch en_generated])"
  by (simp add: listing_def select_transcript_def try_manual_def try_generated_def next_en_def
      fetch_into_def en_manual_failing_def fr_manual_def en_generated_def desc_def seg_def
      init_vars_def truthy_def respond_def endswith_def)

text \<open>
  C2, as the code has it. Let the manual group be non-empty. If it has a descriptor with
  the language code \<open>en\<close>, the first such descriptor is the one fetched, and when the fetch
  returns at least one segment the language reported is \<open>en\<close>. Otherwise the first manual
  descriptor in the order of the service is the one fetched, and when the fetch returns at
  least one segment the language reported is its language code, provided the code does not
  end in \<open>_generated\<close>; a code that ends in \<open>_generated\<close> is reported with every
  \<open>_generated\<close> removed from it.
\<close>

theorem manual_group_language:
  assumes "ytt_api vid = Inr ts" and "manual_group ts = m # rest"
  shows "(find (\<lambda>t. language_code t = ''en'') (manual_group ts) = Some en \<longrightarrow>
            take 2 (snd (select_transcript ytt_api vid)) = [ListTranscripts vid, Fetch en] \<and>
            (fetched_ok en \<longrightarrow>
               language (fst (select_transcript ytt_api vid)) = Some ''en'')) \<and>
         (find (\<lambda>t. language_code t = ''en'') (manual_group ts) = None \<longrightarrow>
            take 2 (snd (select_transcript ytt_api vid)) = [ListTranscripts vid, Fetch m] \<and>
            (fetched_ok m \<longrightarrow>
               language (fst (select_transcript ytt_api vid)) =
                 Some (if endswith (language_code m) ''_generated''
                       then replace (language_code m) ''_generated'' []
                       else language_code m)))"
proof -
  have first_call: "take 2 (snd (select_transcript ytt_api vid)) = [ListTranscripts vid, Fetch t]"
    if p: "preferred (manual_group ts) = Some t" for t
  proof (cases "fetched_ok t")
    case True
    then obtain segs where "fetch t = Inr segs" "segs \<noteq> []" using fetched_okD by blast
    then show ?thesis using select_manual_ok [of ytt_api vid, OF assms(1) p] by simp
  next
    case False
    then have nm: "\<not> yields (manual_group ts)" using p by (simp add: yields_def)
    have mc: "manual_calls ts = [Fetch t]" using p by (simp add: manual_calls_def)
    show ?thesis
    proof (cases "yields (generated_group ts)")
      case True
      then obtain u segs where "preferred (generated_group ts) = Some u" "fetch u = Inr segs"
        "segs \<noteq> []" using yieldsD by blast
      then show ?thesis
        using select_generated_ok [of ytt_api vid, OF assms(1) nm] mc by simp
    next
      case g: False
      show ?thesis using select_nothing [of ytt_api vid, OF assms(1) nm g] mc by simp
    qed
  qed
  have lang: "language (fst (select_transcript ytt_api vid)) = Some (manual_label (language_code t))"
    if p: "preferred (manual_group ts) = Some t" and ok: "fetched_ok t" for t
  proof -
    obtain segs where "fetch t = Inr segs" "segs \<noteq> []" using ok fetched_okD by blast
    then show ?thesis using select_manual_ok [of ytt_api vid, OF assms(1) p] by simp
  qed
  have en: "preferred (manual_group ts) = Some en \<and> language_code en = ''en''"
    if "find (\<lambda>t. language_code t = ''en'') (manual_group ts) = Some en"
    using that by (simp add: preferred_def find_en_code)
  have fst: "preferred (manual_group ts) = Some m"
    if "find (\<lambda>t. language_code t = ''en'') (manual_group ts) = None"
    using that assms(2) by (simp add: preferred_def)
  have lang_en: "language (fst (select_transcript ytt_api vid)) = Some ''en''"
    if "find (\<lambda>t. language_code t = ''en'') (manual_group ts) = Some en" and "fetched_ok en"
    using lang [of en] en that by (simp add: manual_label_en)
  have lang_first: "language (fst (select_transcript ytt_api vid)) =
      Some (if endswith (language_code m) ''_generated''
            then replace (language_code m) ''_generated'' []
            else language_code m)"
    if "find (\<lambda>t. language_code t = ''en'') (manual_group ts) = None" and "fetched_ok m"
    using lang [of m] fst that by (simp add: manual_label_def)
  show ?thesis
    using first_call [of en] first_call [of m] en fst lang_en lang_first by blast
qed

theorem manual_group_language_witness:
  "manual_group [es_generated, fr_manual, desc ''en'' False (Inr [seg ''Hi''])] =
     [fr_manual, desc ''en'' False (Inr [seg ''Hi''])] \<and>
   find (\<lambda>t. language_code t = ''en'')
     (manual_group [es_generated, fr_manual, desc ''en'' False (Inr [seg ''Hi''])]) =
     Some (desc ''en'' False (Inr [seg ''Hi''])) \<and>
   fetched_ok (desc ''en'' False (Inr [seg ''Hi''])) \<and>
   language (fst (select_transcript
     (listing [es_generated, fr_manual, desc ''en'' False (Inr [seg ''Hi''])]) ''a'')) = Some ''en'' \<and>
   manual_group [es_generated, fr_manual] = [fr_manual] \<and>
   find (\<lambda>t. language_code t = ''en'') (manual_group [es_generated, fr_manual]) = None \<and>
   fetched_ok fr_manual \<and>
   language (fst (select_transcript (listing [es_generated, fr_manual]) ''a'')) = Some ''fr''"
proof -
  let ?en = "desc ''en'' False (Inr [seg ''Hi''])"
  let ?ts = "[es_generated, fr_manual, ?en]"
  have m1: "manual_group ?ts = [fr_manual, ?en]"
    and f1: "find (\<lambda>t. language_code t = ''en'') (manual_group ?ts) = Some ?en"
    and o1: "fetched_ok ?en"
    by (simp_all add: manual_group_def es_generated_def fr_manual_def desc_def fetched_ok_def
        seg_def)
  have m2: "manual_group [es_generated, fr_manual] = [fr_manual]"
    and f2: "find (\<lambda>t. language_code t = ''en'') (manual_group [es_generated, fr_manual]) = None"
    and o2: "fetched_ok fr_manual" and c2: "language_code fr_manual = ''fr''"
    by (simp_all add: manual_group_def es_generated_def fr_manual_def desc_def fetched_ok_def
        seg_def)
  have l1: "listing ?ts ''a'' = Inr ?ts"
    and l2: "listing [es_generated, fr_manual] ''a'' = Inr [es_generated, fr_manual]"
    by (simp_all add: listing_def)
  have e: "\<not> endswith ''fr'' ''_generated''" by (simp add: endswith_def)
  show ?thesis
    using m1 f1 o1 m2 f2 o2 c2 e
      manual_group_language [of "listing ?ts" "''a''" ?ts fr_manual "[?en]" ?en, OF l1 m1]
      manual_group_language [of "listing [es_generated, fr_manual]" "''a''"
        "[es_generated, fr_manual]" fr_manual "[]" ?en, OF l2 m2]
    by simp
qed

theorem manual_group_language_counterexample:
  "manual_group [pt_suffixed_manual] = [pt_suffixed_manual] \<and>
   find (\<lambda>t. language_code t = ''en'') (manual_group [pt_suffixed_manual]) = None \<and>
   language_code pt_suffixed_manual = ''pt_generated'' \<and>
   select_transcript (listing [pt_suffixed_manual]) ''a'' =
     (\<lparr>success = True, fail_reason = None, language = Some ''pt'',
       transcript = Some ''Bom dia''\<rparr>,
      [ListTranscripts ''a'', Fetch pt_suffixed_manual]) \<and>
   language (fst (select_transcript (listing [pt_suffixed_manual]) ''a'')) \<noteq>
     Some (language_code pt_suffixed_manual)"
proof -
  have r: "replace ''pt_generated'' ''_generated'' [] = ''pt''"
    by (simp add: replace.simps startswith_def)
  show ?thesis
    by (simp add: listing_def select_transcript_def try_manual_def try_generated_def next_en_def
      fetch_into_def pt_suffixed_manual_def desc_def seg_def manual_group_def
      init_vars_def truthy_def respond_def endswith_def r)
qed

text \<open>
  C3. Let no manual transcript be selected (the manual group is empty, or the fetch of its
  preferred descriptor raises or returns no segment) and let the generated group be
  non-empty. If a generated descriptor has the language code \<open>en\<close>, the first such
  descriptor is the one fetched, and when the fetch returns at least one segment the
  response is a success with the language \<open>en_generated\<close>. Otherwise the first generated
  descriptor in the order of the service is the one fetched, and the language reported is
  its language code followed by \<open>_generated\<close>.
\<close>

theorem generated_group_language:
  assumes "ytt_api vid = Inr ts" and "\<not> yields (manual_group ts)"
    and "generated_group ts = g # rest"
  shows "(find (\<lambda>t. language_code t = ''en'') (generated_group ts) = Some en \<longrightarrow>
            snd (select_transcript ytt_api vid) =
              ListTranscripts vid # manual_calls ts @ [Fetch en] \<and>
            (fetched_ok en \<longrightarrow>
               success (fst (select_transcript ytt_api vid)) \<and>
               language (fst (select_transcript ytt_api vid)) = Some ''en_generated'')) \<and>
         (find (\<lambda>t. language_code t = ''en'') (generated_group ts) = None \<longrightarrow>
            snd (select_transcript ytt_api vid) =
              ListTranscripts vid # manual_calls ts @ [Fetch g] \<and>
            (fetched_ok g \<longrightarrow>
               success (fst (select_transcript ytt_api vid)) \<and>
               language (fst (select_transcript ytt_api vid)) =
                 Some (language_code g @ ''_generated'')))"
proof -
  have calls: "snd (select_transcript ytt_api vid) = ListTranscripts vid # manual_calls ts @ [Fetch t]"
    if p: "preferred (generated_group ts) = Some t" for t
  proof (cases "fetched_ok t")
    case True
    then obtain segs where "fetch t = Inr segs" "segs \<noteq> []" using fetched_okD by blast
    then show ?thesis
      using select_generated_ok [of ytt_api vid, OF assms(1,2) p] by simp
  next
    case False
    then have "\<not> yields (generated_group ts)" using p by (simp add: yields_def)
    then show ?thesis
      using select_nothing [of ytt_api vid, OF assms(1,2)] p by (simp add: generated_calls_def)
  qed
  have lang: "success (fst (select_transcript ytt_api vid)) \<and>
      language (fst (select_transcript ytt_api vid)) = Some (language_code t @ ''_generated'')"
    if p: "preferred (generated_group ts) = Some t" and ok: "fetched_ok t" for t
  proof -
    obtain segs where "fetch t = Inr segs" "segs \<noteq> []" using ok fetched_okD by blast
    then show ?thesis
      using select_generated_ok [of ytt_api vid, OF assms(1,2) p] by simp
  qed
  have en: "preferred (generated_group ts) = Some en \<and> language_code en = ''en''"
    if "find (\<lambda>t. language_code t = ''en'') (generated_group ts) = Some en"
    using that by (simp add: preferred_def find_en_code)
  have fst: "preferred (generated_group ts) = Some g"
    if "find (\<lambda>t. language_code t = ''en'') (generated_group ts) = None"
    using that assms(3) by (simp add: preferred_def)
  have lang_en: "success (fst (select_transcript ytt_api vid)) \<and>
      language (fst (select_transcript ytt_api vid)) = Some ''en_generated''"
    if "find (\<lambda>t. language_code t = ''en'') (generated_group ts) = Some en" and "fetched_ok en"
    using lang [of en] en that by simp
  show ?thesis
    using calls [of en] calls [of g] en fst lang_en lang [of g] by blast
qed

theorem generated_group_language_witness:
  "\<not> yields (manual_group [es_generated, en_generated]) \<and>
   generated_group [es_generated, en_generated] = [es_generated, en_generated] \<and>
   find (\<lambda>t. language_code t = ''en'') (generated_group [es_generated, en_generated]) =
     Some en_generated \<and>
   fetched_ok en_generated \<and>
   snd (select_transcript (listing [es_generated, en_generated]) ''a'') =
     [ListTranscripts ''a'', Fetch en_generated] \<and>
   language (fst (select_transcript (listing [es_generated, en_generated]) ''a'')) =
     Some ''en_generated'' \<and>
   \<not> yields (manual_group [en_manual_failing, es_generated]) \<and>
   generated_group [en_manual_failing, es_generated] = [es_generated] \<and>
   find (\<lambda>t. language_code t = ''en'') (generated_group [en_manual_failing, es_generated]) = None \<and>
   fetched_ok es_generated \<and>
   snd (select_transcript (listing [en_manual_failing, es_generated]) ''a'') =
     [ListTranscripts ''a'', Fetch en_manual_failing, Fetch es_generated] \<and>
   language (fst (select_transcript (listing [en_manual_failing, es_generated]) ''a'')) =
     Some ''es_generated''"
proof -
  let ?t1 = "[es_generated, en_generated]"
  let ?t2 = "[en_manual_failing, es_generated]"
  have y1: "\<not> yields (manual_group ?t1)"
    and g1: "generated_group ?t1 = [es_generated, en_generated]"
    and f1: "find (\<lambda>t. language_code t = ''en'') (generated_group ?t1) = Some en_generated"
    and o1: "fetched_ok en_generated"
    and c1: "manual_calls ?t1 = []"
    by (simp_all add: yields_def preferred_def manual_group_def generated_group_def
        manual_calls_def es_generated_def en_generated_def desc_def seg_def fetched_ok_def)
  have y2: "\<not> yields (manual_group ?t2)"
    and g2: "generated_group ?t2 = [es_generated]"
    and f2: "find (\<lambda>t. language_code t = ''en'') (generated_group ?t2) = None"
    and o2: "fetched_ok es_generated"
    and c2: "manual_calls ?t2 = [Fetch en_manual_failing]"
    and k2: "language_code es_generated = ''es''"
    by (simp_all add: yields_def preferred_def manual_group_def generated_group_def
        manual_calls_def es_generated_def en_manual_failing_def desc_def seg_def fetched_ok_def)
  have l1: "listing ?t1 ''a'' = Inr ?t1" and l2: "listing ?t2 ''a'' = Inr ?t2"
    by (simp_all add: listing_def)
  show ?thesis
    using y1 g1 f1 o1 c1 y2 g2 f2 o2 c2 k2
      generated_group_language [of "listing ?t1" "''a''" ?t1 es_generated "[en_generated]"
        en_generated, OF l1 y1 g1]
      generated_group_language [of "listing ?t2" "''a''" ?t2 es_generated "[]"
        en_generated, OF l2 y2 g2]
    by simp
qed

text \<open>
  C8. Whenever the endpoint answers with a success, the transcript it returns is made of
  the \<open>text\<close> fields of the segments that the last fetch returned, in their order, with a
  single space between two consecutive texts; \<open>start\<close> and \<open>duration\<close> do not enter it.
  The segments \<open>[{text: Hello}, {text: world}]\<close> give \<open>Hello world\<close>. The joined string
  has one separator less than there are texts.
\<close>

theorem transcript_is_joined_text:
  "(success (fst (get_transcript mk_api env url)) \<longrightarrow>
      (\<exists>t segs. last (snd (get_transcript mk_api env url)) = Fetch t \<and>
         fetch t = Inr segs \<and> segs \<noteq> [] \<and>
         transcript (fst (get_transcript mk_api env url)) =
           Some (join '' '' (map seg_text segs)))) \<and>
   join '' '' (map seg_text
      [\<lparr>seg_text = ''Hello'', start = s1, duration = d1\<rparr>,
       \<lparr>seg_text = ''world'', start = s2, duration = d2\<rparr>]) = ''Hello world'' \<and>
   length (join '' '' (map seg_text segs')) =
     sum_list (map (length \<circ> seg_text) segs') + (length segs' - 1)"
proof -
  have main: "\<exists>t segs. last (snd (get_transcript mk_api env url)) = Fetch t \<and>
         fetch t = Inr segs \<and> segs \<noteq> [] \<and>
         transcript (fst (get_transcript mk_api env url)) =
           Some (join '' '' (map seg_text segs))"
    if ok: "success (fst (get_transcript mk_api env url))"
  proof -
    obtain vid where v: "extract_video_id url = Some vid" "vid \<noteq> []"
      using ok by (auto simp: get_transcript_def failure_def split: option.splits if_splits)
    let ?api = "mk_api (proxy_of_env env)"
    have g: "get_transcript mk_api env url = select_transcript ?api vid"
      using v by (rule get_transcript_valid)
    obtain ts where ts: "?api vid = Inr ts"
      using ok unfolding g
      by (auto simp: select_transcript_def failure_def split: sum.splits exn.splits)
    have y: "yields (manual_group ts) \<or> yields (generated_group ts)"
      using ok select_success_iff [of ?api vid ts, OF ts] unfolding g by simp
    show ?thesis
    proof (cases "yields (manual_group ts)")
      case True
      then obtain t segs where "preferred (manual_group ts) = Some t" "fetch t = Inr segs"
        "segs \<noteq> []" using yieldsD by blast
      then show ?thesis
        unfolding g using select_manual_ok [of ?api vid, OF ts] by auto
    next
      case False
      then obtain t segs where "preferred (generated_group ts) = Some t" "fetch t = Inr segs"
        "segs \<noteq> []" using y yieldsD by blast
      then show ?thesis
        unfolding g using select_generated_ok [of ?api vid, OF ts False] by auto
    qed
  qed
  have len: "length (join '' '' (map seg_text segs')) =
      sum_list (map (length \<circ> seg_text) segs') + (length segs' - 1)"
    by (simp add: length_join_space)
  show ?thesis
    using main len by simp
qed

theorem transcript_is_joined_text_witness:
  "success (fst (get_transcript (direct (listing [es_generated, en_generated])) Map.empty ''v=a'')) \<and>
   last (snd (get_transcript (direct (listing [es_generated, en_generated])) Map.empty ''v=a'')) =
     Fetch en_generated \<and>
   fetch en_generated = Inr [seg ''Hello'', seg ''world''] \<and>
   transcript (fst (get_transcript (direct (listing [es_generated, en_generated])) Map.empty ''v=a'')) =
     Some ''Hello world''"
proof -
  let ?r = "get_transcript (direct (listing [es_generated, en_generated])) Map.empty ''v=a''"
  have run: "?r =
      (\<lparr>success = True, fail_reason = None, language = Some ''en_generated'',
        transcript = Some ''Hello world''\<rparr>, [ListTranscripts ''a'', Fetch en_generated])"
    by (simp add: get_transcript_def extract_v_a direct_def listing_def select_transcript_def
        try_manual_def try_generated_def next_en_def fetch_into_def es_generated_def
        en_generated_def desc_def seg_def init_vars_def truthy_def respond_def endswith_def)
  have f: "fetch en_generated = Inr [seg ''Hello'', seg ''world'']"
    by (simp add: en_generated_def desc_def)
  have ok: "success (fst ?r)" by (simp add: run)
  have "\<exists>t segs. last (snd ?r) = Fetch t \<and> fetch t = Inr segs \<and> segs \<noteq> [] \<and>
      transcript (fst ?r) = Some (join '' '' (map seg_text segs))"
    using transcript_is_joined_text [of "direct (listing [es_generated, en_generated])"
        Map.empty "''v=a''"] ok by blast
  then obtain t segs where "last (snd ?r) = Fetch t" "fetch t = Inr segs"
    "transcript (fst ?r) = Some (join '' '' (map seg_text segs))" by blast
  then have "transcript (fst ?r) = Some (join '' '' (map seg_text [seg ''Hello'', seg ''world'']))"
    using f by (simp add: run)
  then show ?thesis
    using ok f by (simp add: run seg_def)
qed

text \<open>
  C10. When a pattern matches and the identifier it captures is the empty string, as in
  \<open>https://www.youtube.com/watch?v=\<close>, the endpoint answers as it does when no pattern
  matches: \<open>success = False\<close> with the reason \<open>invalid_url\<close>, and no request is sent. So no
  request for an empty video identifier ever reaches the service.
\<close>

theorem empty_identifier_is_invalid_url:
  "(extract_video_id url = Some [] \<or> extract_video_id url = None \<longrightarrow>
      get_transcript mk_api env url =
        (\<lparr>success = False, fail_reason = Some ''invalid_url'',
          language = None, transcript = None\<rparr>, [])) \<and>
   extract_video_id ''https://www.youtube.com/watch?v='' = Some [] \<and>
   ListTranscripts [] \<notin> set (snd (get_transcript mk_api env url))"
proof -
  have inv: "get_transcript mk_api env url = (failure ''invalid_url'', [])"
    if "extract_video_id url = Some [] \<or> extract_video_id url = None"
    using that by (auto simp: get_transcript_def)
  have ex: "extract_video_id ''https://www.youtube.com/watch?v='' = Some []"
    by code_simp
  have "ListTranscripts [] \<notin> set (snd (get_transcript mk_api env url))"
  proof (cases "extract_video_id url")
    case None
    then show ?thesis by (simp add: get_transcript_def)
  next
    case (Some vid)
    show ?thesis
    proof (cases "vid = []")
      case True
      then show ?thesis using Some by (simp add: get_transcript_def)
    next
      case False
      then show ?thesis
        using Some select_calls [of "mk_api (proxy_of_env env)" vid]
        by (auto simp: get_transcript_def)
    qed
  qed
  then show ?thesis
    using inv ex by (simp add: failure_def)
qed

theorem empty_identifier_is_invalid_url_witness:
  "extract_video_id ''https://www.youtube.com/watch?v='' = Some [] \<and>
   get_transcript (direct (listing [fr_manual])) Map.empty ''https://www.youtube.com/watch?v='' =
     (\<lparr>success = False, fail_reason = Some ''invalid_url'',
       language = None, transcript = None\<rparr>, [])"
  using empty_identifier_is_invalid_url [of "''https://www.youtube.com/watch?v=''"
      "direct (listing [fr_manual])" Map.empty]
  by blast

subsection \<open>The matcher and the language of a pattern\<close>

lemma ms_Star_ends:
  "fst ` set (ms (Star c) (s, g)) = {s'. \<exists>w. list_all (cls_ok c) w \<and> s = w @ s'}"
proof (induction s)
  case Nil
  then show ?case by auto
next
  case (Cons x xs)
  show ?case
  proof (cases "cls_ok c x")
    case True
    have "{s'. \<exists>w. list_all (cls_ok c) w \<and> x # xs = w @ s'} =
          insert (x # xs) {s'. \<exists>w. list_all (cls_ok c) w \<and> xs = w @ s'}"
    proof (intro set_eqI iffI)
      fix s' assume "s' \<in> {s'. \<exists>w. list_all (cls_ok c) w \<and> x # xs = w @ s'}"
      then obtain w where w: "list_all (cls_ok c) w" "x # xs = w @ s'" by blast
      show "s' \<in> insert (x # xs) {s'. \<exists>w. list_all (cls_ok c) w \<and> xs = w @ s'}"
      proof (cases w)
        case Nil
        then show ?thesis using w by simp
      next
        case (Cons y ys)
        then have "list_all (cls_ok c) ys \<and> xs = ys @ s'" using w by simp
        then show ?thesis by blast
      qed
    next
      fix s' assume "s' \<in> insert (x # xs) {s'. \<exists>w. list_all (cls_ok c) w \<and> xs = w @ s'}"
      then consider "s' = x # xs" | w where "list_all (cls_ok c) w" "xs = w @ s'" by blast
      then show "s' \<in> {s'. \<exists>w. list_all (cls_ok c) w \<and> x # xs = w @ s'}"
      proof cases
        case 1
        then have "list_all (cls_ok c) [] \<and> x # xs = [] @ s'" by simp
        then show ?thesis by blast
      next
        case 2
        then have "list_all (cls_ok c) (x # w) \<and> x # xs = (x # w) @ s'" using True by simp
        then show ?thesis by blast
      qed
    qed
    then show ?thesis using True Cons by (simp add: image_Un)
  next
    case False
    have "{s'. \<exists>w. list_all (cls_ok c) w \<and> x # xs = w @ s'} = {x # xs}"
    proof (intro set_eqI iffI)
      fix s' assume "s' \<in> {s'. \<exists>w. list_all (cls_ok c) w \<and> x # xs = w @ s'}"
      then obtain w where w: "list_all (cls_ok c) w" "x # xs = w @ s'" by blast
      then have "w = []" using False by (cases w) auto
      then show "s' \<in> {x # xs}" using w by simp
    next
      fix s' assume "s' \<in> {x # xs}"
      then have "list_all (cls_ok c) [] \<and> x # xs = [] @ s'" by simp
      then show "s' \<in> {s'. \<exists>w. list_all (cls_ok c) w \<and> x # xs = w @ s'}" by blast
    qed
    then show ?thesis using False by simp
  qed
qed

lemma ms_ends: "fst ` set (ms r (s, g)) = {s'. \<exists>w \<in> lang r. s = w @ s'}"
proof (induction r arbitrary: s g)
  case Eps
  show ?case by simp
next
  case (One c)
  show ?case by (cases s) auto
next
  case (Star c)
  show ?case using ms_Star_ends [of c s g] by simp
next
  case (Seq a b)
  show ?case
  proof (intro set_eqI iffI)
    fix s' assume "s' \<in> fst ` set (ms (Seq a b) (s, g))"
    then obtain g' where "(s', g') \<in> set (ms (Seq a b) (s, g))" by force
    then obtain s1 g1 where 1: "(s1, g1) \<in> set (ms a (s, g))" and 2: "(s', g') \<in> set (ms b (s1, g1))"
      by auto
    have "s1 \<in> fst ` set (ms a (s, g))" using 1 by force
    then obtain u where u: "u \<in> lang a" "s = u @ s1" unfolding Seq.IH(1) by blast
    have "s' \<in> fst ` set (ms b (s1, g1))" using 2 by force
    then obtain v where v: "v \<in> lang b" "s1 = v @ s'" unfolding Seq.IH(2) by blast
    have "u @ v \<in> lang (Seq a b)" using u(1) v(1) by auto
    moreover have "s = (u @ v) @ s'" using u(2) v(2) by simp
    ultimately show "s' \<in> {s'. \<exists>w \<in> lang (Seq a b). s = w @ s'}" by blast
  next
    fix s' assume "s' \<in> {s'. \<exists>w \<in> lang (Seq a b). s = w @ s'}"
    then obtain u v where uv: "u \<in> lang a" "v \<in> lang b" "s = u @ v @ s'" by auto
    then have "v @ s' \<in> fst ` set (ms a (s, g))" unfolding Seq.IH(1) by blast
    then obtain g1 where 1: "(v @ s', g1) \<in> set (ms a (s, g))" by force
    have "s' \<in> fst ` set (ms b (v @ s', g1))" unfolding Seq.IH(2) using uv(2) by blast
    then obtain g' where "(s', g') \<in> set (ms b (v @ s', g1))" by force
    then have "(s', g') \<in> set (ms (Seq a b) (s, g))" using 1 by auto
    then show "s' \<in> fst ` set (ms (Seq a b) (s, g))" by force
  qed
next
  case (Alt a b)
  then show ?case by (auto simp: image_Un)
next
  case (Grp r)
  have "fst ` set (ms (Grp r) (s, g)) = fst ` set (ms r (s, g))"
    by (force simp: image_iff split: prod.splits)
  then show ?case using Grp by simp
qed

lemma ms_empty_iff: "ms r (s, g) = [] \<longleftrightarrow> \<not> (\<exists>w \<in> lang r. \<exists>s'. s = w @ s')"
proof -
  have "ms r (s, g) = [] \<longleftrightarrow> fst ` set (ms r (s, g)) = {}" by simp
  then show ?thesis unfolding ms_ends by blast
qed

lemma re_match_None_iff: "re_match r s = None \<longleftrightarrow> \<not> (\<exists>w \<in> lang r. \<exists>s'. s = w @ s')"
  using ms_empty_iff [of r s None] by (auto simp: re_match_def split: list.splits)

lemma occurs_Nil: "occurs r [] \<longleftrightarrow> [] \<in> lang r"
  by (auto simp: occurs_def)

lemma occurs_Cons:
  "occurs r (c # cs) \<longleftrightarrow> (\<exists>w \<in> lang r. \<exists>s'. c # cs = w @ s') \<or> occurs r cs"
proof
  assume "occurs r (c # cs)"
  then obtain pre w post where o: "c # cs = pre @ w @ post" "w \<in> lang r"
    by (auto simp: occurs_def)
  show "(\<exists>w \<in> lang r. \<exists>s'. c # cs = w @ s') \<or> occurs r cs"
  proof (cases pre)
    case Nil
    then show ?thesis using o by auto
  next
    case (Cons p ps)
    then have "cs = ps @ w @ post" using o by simp
    then show ?thesis using o(2) by (auto simp: occurs_def)
  qed
next
  assume "(\<exists>w \<in> lang r. \<exists>s'. c # cs = w @ s') \<or> occurs r cs"
  then show "occurs r (c # cs)"
  proof
    assume "\<exists>w \<in> lang r. \<exists>s'. c # cs = w @ s'"
    then obtain w s' where "w \<in> lang r" "c # cs = [] @ w @ s'" by auto
    then show ?thesis unfolding occurs_def by blast
  next
    assume "occurs r cs"
    then obtain pre w post where "cs = pre @ w @ post" "w \<in> lang r" by (auto simp: occurs_def)
    then have "c # cs = (c # pre) @ w @ post \<and> w \<in> lang r" by simp
    then show ?thesis unfolding occurs_def by blast
  qed
qed

lemma re_search_None_iff: "re_search r s = None \<longleftrightarrow> \<not> occurs r s"
proof (induction s)
  case Nil
  show ?case using re_match_None_iff [of r "[]"] by (auto simp: occurs_Nil)
next
  case (Cons c cs)
  show ?case
    using Cons re_match_None_iff [of r "c # cs"] occurs_Cons [of r c cs]
    by (auto split: option.splits)
qed

subsection \<open>What the first path of a pattern captures\<close>

lemma ms_Star_hd:
  "ms (Star c) (s, g) \<noteq> [] \<and> hd (ms (Star c) (s, g)) = (dropWhile (cls_ok c) s, g)"
  by (induction s) auto

lemma take_length_dropWhile: "take (length s - length (dropWhile P s)) s = takeWhile P s"
  by (induction s) (auto simp: Suc_diff_le length_dropWhile_le)

lemma hd_concat_map:
  "xs \<noteq> [] \<Longrightarrow> f (hd xs) \<noteq> [] \<Longrightarrow>
   concat (map f xs) \<noteq> [] \<and> hd (concat (map f xs)) = hd (f (hd xs))"
  by (cases xs) auto

lemma ms_id_tail_hd:
  "ms id_tail (s, g) \<noteq> [] \<and>
   snd (hd (ms id_tail (s, g))) = Some (takeWhile (\<lambda>c. c \<notin> stops) s)"
proof -
  let ?c = "NoneOf ''#&?''"
  let ?grp = "ms (Grp (Star ?c)) (s, g)"
  have ok: "cls_ok ?c = (\<lambda>c. c \<notin> stops)" by (auto simp: stops_def)
  have g1: "?grp \<noteq> []" using ms_Star_hd [of ?c s g] by simp
  have g2: "hd ?grp = (dropWhile (cls_ok ?c) s, Some (takeWhile (cls_ok ?c) s))"
    using ms_Star_hd [of ?c s g] by (simp add: hd_map take_length_dropWhile)
  have t: "ms (Star AnyChar) (hd ?grp) \<noteq> [] \<and>
      snd (hd (ms (Star AnyChar) (hd ?grp))) = Some (takeWhile (cls_ok ?c) s)"
    using ms_Star_hd [of AnyChar "dropWhile (cls_ok ?c) s" "Some (takeWhile (cls_ok ?c) s)"]
    unfolding g2 by simp
  have "ms id_tail (s, g) = concat (map (ms (Star AnyChar)) ?grp)"
    by (simp add: id_tail_def)
  then show ?thesis
    using hd_concat_map [of ?grp "ms (Star AnyChar)", OF g1] t ok by simp
qed

lemma re_match_head_tail:
  "re_match (Seq h id_tail) s =
     (case ms h (s, None) of
        [] \<Rightarrow> None
      | (s1, g1) # _ \<Rightarrow> Some (Some (takeWhile (\<lambda>c. c \<notin> stops) s1)))"
proof (cases "ms h (s, None)")
  case Nil
  then show ?thesis by (simp add: re_match_def)
next
  case (Cons st rest)
  obtain s1 g1 where st: "st = (s1, g1)" by (cases st)
  have ne: "ms h (s, None) \<noteq> []" and h: "hd (ms h (s, None)) = (s1, g1)"
    using Cons st by simp_all
  have "concat (map (ms id_tail) (ms h (s, None))) \<noteq> [] \<and>
      hd (concat (map (ms id_tail) (ms h (s, None)))) = hd (ms id_tail (s1, g1))"
    using hd_concat_map [of "ms h (s, None)" "ms id_tail", OF ne] ms_id_tail_hd [of s1 g1] h
    by simp
  then have "ms (Seq h id_tail) (s, None) \<noteq> [] \<and>
      snd (hd (ms (Seq h id_tail) (s, None))) = Some (takeWhile (\<lambda>c. c \<notin> stops) s1)"
    using ms_id_tail_hd [of s1 g1] by simp
  then show ?thesis
    using Cons st by (cases "ms (Seq h id_tail) (s, None)") (auto simp: re_match_def)
qed

lemma re_match_head_tail_Some:
  assumes "re_match (Seq h id_tail) s = Some m"
  shows "\<exists>w v post. m = Some v \<and> s = w @ v @ post \<and> w \<in> lang h \<and>
           set v \<inter> stops = {} \<and> (post = [] \<or> hd post \<in> stops)"
proof -
  obtain s1 g1 rest where c: "ms h (s, None) = (s1, g1) # rest"
    and m: "m = Some (takeWhile (\<lambda>c. c \<notin> stops) s1)"
    using assms unfolding re_match_head_tail by (auto split: list.splits)
  have "s1 \<in> fst ` set (ms h (s, None))" using c by force
  then obtain w where w: "w \<in> lang h" "s = w @ s1" unfolding ms_ends by blast
  let ?v = "takeWhile (\<lambda>c. c \<notin> stops) s1"
  let ?post = "dropWhile (\<lambda>c. c \<notin> stops) s1"
  have "s = w @ ?v @ ?post" using w(2) by simp
  moreover have "set ?v \<inter> stops = {}" by (auto dest: set_takeWhileD)
  moreover have "?post = [] \<or> hd ?post \<in> stops"
    using hd_dropWhile [of "\<lambda>c. c \<notin> stops" s1] by auto
  ultimately show ?thesis using m w(1) by blast
qed

lemma re_match_head_tail_None:
  "re_match (Seq h id_tail) s = None \<longleftrightarrow> \<not> (\<exists>w \<in> lang h. \<exists>s'. s = w @ s')"
  using ms_empty_iff [of h s None] unfolding re_match_head_tail by (auto split: list.splits)

lemma occurs_head_tail: "occurs (Seq h id_tail) s \<longleftrightarrow> occurs h s"
proof -
  have "re_search (Seq h id_tail) s = None \<longleftrightarrow> re_search h s = None"
  proof (induction s)
    case Nil
    show ?case
      using re_match_head_tail_None [of h "[]"] re_match_None_iff [of h "[]"] by simp
  next
    case (Cons c cs)
    show ?case
      using Cons re_match_head_tail_None [of h "c # cs"] re_match_None_iff [of h "c # cs"]
      by (auto split: option.splits)
  qed
  then show ?thesis by (simp add: re_search_None_iff)
qed

lemma re_search_head_tail_Some:
  "re_search (Seq h id_tail) s = Some m \<Longrightarrow>
   \<exists>pre w v post. m = Some v \<and> s = pre @ w @ v @ post \<and> w \<in> lang h \<and>
      set v \<inter> stops = {} \<and> (post = [] \<or> hd post \<in> stops) \<and>
      (\<forall>pre' w' post'. s = pre' @ w' @ post' \<and> w' \<in> lang h \<longrightarrow> length pre \<le> length pre')"
proof (induction s)
  case Nil
  then have "re_match (Seq h id_tail) [] = Some m" by simp
  then obtain w v post where "m = Some v" "[] = [] @ w @ v @ post" "w \<in> lang h"
    "set v \<inter> stops = {}" "post = [] \<or> hd post \<in> stops"
    using re_match_head_tail_Some [of h "[]" m] by auto
  then show ?case by - (rule exI [of _ "[]"], rule exI [of _ w], rule exI [of _ v], rule exI [of _ post], simp)
next
  case (Cons c cs)
  show ?case
  proof (cases "re_match (Seq h id_tail) (c # cs)")
    case (Some m')
    then have "re_match (Seq h id_tail) (c # cs) = Some m" using Cons.prems by simp
    then obtain w v post where "m = Some v" "c # cs = [] @ w @ v @ post" "w \<in> lang h"
      "set v \<inter> stops = {}" "post = [] \<or> hd post \<in> stops"
      using re_match_head_tail_Some [of h "c # cs" m] by auto
    then show ?thesis by - (rule exI [of _ "[]"], rule exI [of _ w], rule exI [of _ v], rule exI [of _ post], simp)
  next
    case None
    then have "re_search (Seq h id_tail) cs = Some m" using Cons.prems by simp
    then obtain pre w v post where r: "m = Some v" "cs = pre @ w @ v @ post" "w \<in> lang h"
      "set v \<inter> stops = {}" "post = [] \<or> hd post \<in> stops"
      and left: "\<forall>pre' w' post'. cs = pre' @ w' @ post' \<and> w' \<in> lang h \<longrightarrow> length pre \<le> length pre'"
      using Cons.IH by blast
    have no: "\<not> (\<exists>w \<in> lang h. \<exists>s'. c # cs = w @ s')"
      using None by (simp add: re_match_head_tail_None)
    have left': "length (c # pre) \<le> length pre'"
      if o: "c # cs = pre' @ w' @ post'" "w' \<in> lang h" for pre' w' post'
    proof (cases pre')
      case Nil
      then show ?thesis using o no by auto
    next
      case (Cons p ps)
      then have "cs = ps @ w' @ post'" using o(1) by simp
      then have "length pre \<le> length ps" using left o(2) by blast
      then show ?thesis using Cons by simp
    qed
    have "c # cs = (c # pre) @ w @ v @ post" using r(2) by simp
    then show ?thesis
      using r(1,3,4,5) left'
      by - (rule exI [of _ "c # pre"], rule exI [of _ w], rule exI [of _ v],
          rule exI [of _ post], blast)
  qed
qed

subsection \<open>The loop over the patterns\<close>

lemma patterns_heads: "patterns = map (\<lambda>h. Seq h id_tail) heads"
  by (simp add: patterns_def heads_def)

lemma first_match_None_iff:
  "first_match (map (\<lambda>h. Seq h id_tail) hs) url = None \<longleftrightarrow>
   (\<forall>h \<in> set hs. \<not> occurs (Seq h id_tail) url)"
proof (induction hs)
  case Nil
  show ?case by simp
next
  case (Cons h hs)
  show ?case
  proof (cases "re_search (Seq h id_tail) url")
    case None
    then show ?thesis using Cons re_search_None_iff [of "Seq h id_tail" url] by simp
  next
    case (Some m)
    then obtain v where "m = Some v" using re_search_head_tail_Some [of h url m] by blast
    then show ?thesis using Some re_search_None_iff [of "Seq h id_tail" url] by simp
  qed
qed

lemma first_match_Some:
  "first_match (map (\<lambda>h. Seq h id_tail) hs) url = Some v \<Longrightarrow>
   \<exists>k < length hs.
      (\<forall>j < k. \<not> occurs (Seq (hs ! j) id_tail) url) \<and>
      re_search (Seq (hs ! k) id_tail) url = Some (Some v)"
proof (induction hs)
  case Nil
  then show ?case by simp
next
  case (Cons h hs)
  show ?case
  proof (cases "re_search (Seq h id_tail) url")
    case (Some m)
    then have "re_search (Seq h id_tail) url = Some (Some v)" using Cons.prems by simp
    then have "0 < length (h # hs) \<and>
        (\<forall>j < 0. \<not> occurs (Seq ((h # hs) ! j) id_tail) url) \<and>
        re_search (Seq ((h # hs) ! 0) id_tail) url = Some (Some v)" by simp
    then show ?thesis by blast
  next
    case None
    then have "first_match (map (\<lambda>h. Seq h id_tail) hs) url = Some v" using Cons.prems by simp
    then obtain k where k: "k < length hs"
      "\<forall>j < k. \<not> occurs (Seq (hs ! j) id_tail) url"
      "re_search (Seq (hs ! k) id_tail) url = Some (Some v)"
      using Cons.IH by blast
    have no: "\<not> occurs (Seq h id_tail) url"
      using None by (simp add: re_search_None_iff)
    have "\<not> occurs (Seq ((h # hs) ! j) id_tail) url" if "j < Suc k" for j
      using that no k(2) by (cases j) auto
    then have "Suc k < length (h # hs) \<and>
        (\<forall>j < Suc k. \<not> occurs (Seq ((h # hs) ! j) id_tail) url) \<and>
        re_search (Seq ((h # hs) ! Suc k) id_tail) url = Some (Some v)"
      using k(1,3) by simp
    then show ?thesis by blast
  qed
qed

text \<open>
  C4. \<open>extract_video_id\<close> returns null exactly when none of the three patterns occurs
  anywhere in the string; so it does for the empty string and for \<open>not a url\<close>. When it
  returns an identifier \<open>v\<close>, there is a pattern \<open>k\<close> such that no pattern before \<open>k\<close> occurs
  in the string and \<open>v\<close> is what \<open>re.search\<close> captures for pattern \<open>k\<close> (the patterns after
  \<open>k\<close> play no part): the string is \<open>pre @ w @ v @ post\<close>, where \<open>w\<close> is matched by the
  head of pattern \<open>k\<close> at its leftmost occurrence, \<open>v\<close> contains none of \<open>#\<close>, \<open>&\<close>, \<open>?\<close>, and
  \<open>post\<close> is empty or starts with one of them.
\<close>

theorem extract_video_id_first_rule:
  "(extract_video_id url = None \<longleftrightarrow> (\<forall>p \<in> set patterns. \<not> occurs p url)) \<and>
   (extract_video_id url = Some v \<longrightarrow>
      (\<exists>k < length patterns.
          (\<forall>j < k. \<not> occurs (patterns ! j) url) \<and>
          re_search (patterns ! k) url = Some (Some v) \<and>
          (\<exists>pre w post. url = pre @ w @ v @ post \<and> w \<in> lang (heads ! k) \<and>
              set v \<inter> stops = {} \<and> (post = [] \<or> hd post \<in> stops) \<and>
              (\<forall>pre' w' post'. url = pre' @ w' @ post' \<and> w' \<in> lang (heads ! k) \<longrightarrow>
                  length pre \<le> length pre')))) \<and>
   extract_video_id [] = None \<and> extract_video_id ''not a url'' = None"
proof -
  have none: "extract_video_id url = None \<longleftrightarrow> (\<forall>p \<in> set patterns. \<not> occurs p url)"
    unfolding extract_video_id_def patterns_heads first_match_None_iff by simp
  have some: "\<exists>k < length patterns.
          (\<forall>j < k. \<not> occurs (patterns ! j) url) \<and>
          re_search (patterns ! k) url = Some (Some v) \<and>
          (\<exists>pre w post. url = pre @ w @ v @ post \<and> w \<in> lang (heads ! k) \<and>
              set v \<inter> stops = {} \<and> (post = [] \<or> hd post \<in> stops) \<and>
              (\<forall>pre' w' post'. url = pre' @ w' @ post' \<and> w' \<in> lang (heads ! k) \<longrightarrow>
                  length pre \<le> length pre'))"
    if "extract_video_id url = Some v"
  proof -
    have "first_match (map (\<lambda>h. Seq h id_tail) heads) url = Some v"
      using that by (simp add: extract_video_id_def patterns_heads)
    then obtain k where k: "k < length heads"
      "\<forall>j < k. \<not> occurs (Seq (heads ! j) id_tail) url"
      "re_search (Seq (heads ! k) id_tail) url = Some (Some v)"
      using first_match_Some by blast
    have nth: "patterns ! j = Seq (heads ! j) id_tail" if "j \<le> k" for j
      using that k(1) by (simp add: patterns_heads)
    obtain pre w v' post where c: "Some v = Some v'" "url = pre @ w @ v' @ post"
      "w \<in> lang (heads ! k)" "set v' \<inter> stops = {}" "post = [] \<or> hd post \<in> stops"
      "\<forall>pre' w' post'. url = pre' @ w' @ post' \<and> w' \<in> lang (heads ! k) \<longrightarrow>
          length pre \<le> length pre'"
      using re_search_head_tail_Some [OF k(3)] by blast
    have cap: "\<exists>pre w post. url = pre @ w @ v @ post \<and> w \<in> lang (heads ! k) \<and>
        set v \<inter> stops = {} \<and> (post = [] \<or> hd post \<in> stops) \<and>
        (\<forall>pre' w' post'. url = pre' @ w' @ post' \<and> w' \<in> lang (heads ! k) \<longrightarrow>
            length pre \<le> length pre')"
      using c by - (rule exI [of _ pre], rule exI [of _ w], rule exI [of _ post], simp)
    have "k < length patterns" using k(1) by (simp add: patterns_heads)
    moreover have "\<forall>j < k. \<not> occurs (patterns ! j) url" using k(2) nth by simp
    moreover have "re_search (patterns ! k) url = Some (Some v)" using k(3) nth by simp
    ultimately show ?thesis using cap by blast
  qed
  have e1: "extract_video_id [] = None" by code_simp
  have e2: "extract_video_id ''not a url'' = None" by code_simp
  show ?thesis
  proof (intro conjI impI)
    show "extract_video_id url = None \<longleftrightarrow> (\<forall>p \<in> set patterns. \<not> occurs p url)"
      by (rule none)
  qed (rule some, assumption, rule e1, rule e2)
qed

theorem extract_video_id_first_rule_witness:
  "extract_video_id ''https://youtu.be/abc?t=1'' = Some ''abc'' \<and>
   (\<exists>k < length patterns.
       (\<forall>j < k. \<not> occurs (patterns ! j) ''https://youtu.be/abc?t=1'') \<and>
       re_search (patterns ! k) ''https://youtu.be/abc?t=1'' = Some (Some ''abc'') \<and>
       (\<exists>pre w post. ''https://youtu.be/abc?t=1'' = pre @ w @ ''abc'' @ post \<and>
           w \<in> lang (heads ! k) \<and> set ''abc'' \<inter> stops = {} \<and>
           (post = [] \<or> hd post \<in> stops) \<and>
           (\<forall>pre' w' post'. ''https://youtu.be/abc?t=1'' = pre' @ w' @ post' \<and>
               w' \<in> lang (heads ! k) \<longrightarrow> length pre \<le> length pre'))) \<and>
   extract_video_id ''not a url'' = None \<and>
   \<not> occurs (Seq head1 id_tail) ''not a url''"
proof -
  have e: "extract_video_id ''https://youtu.be/abc?t=1'' = Some ''abc''" by code_simp
  note t = extract_video_id_first_rule [of "''https://youtu.be/abc?t=1''" "''abc''"]
  note n = extract_video_id_first_rule [of "''not a url''" "[]"]
  have nn: "extract_video_id ''not a url'' = None"
    by (rule n [THEN conjunct2, THEN conjunct2, THEN conjunct2])
  have m: "Seq head1 id_tail \<in> set patterns" by (simp add: patterns_def)
  have no: "\<not> occurs (Seq head1 id_tail) ''not a url''"
    by (rule n [THEN conjunct1, THEN iffD1, OF nn, THEN bspec, OF m])
  show ?thesis
    by (intro conjI) (rule e, rule t [THEN conjunct2, THEN conjunct1, THEN mp, OF e],
        rule nn, rule no)
qed

end
